theory Spec2Isabelle
  imports Complex_Main "HOL-Library.Word"
begin

section \<open>The sample type: C++ \<open>float\<close>\<close>

text \<open>
  The samples of \<open>AudioData\<close> are C++ \<open>float\<close>s, taken here as IEEE 754 binary32 with
  round-to-nearest-even and every operation evaluated in single precision. A value is a
  rational (the finite ones), an infinity or NaN. The sign of zero and the payload of a
  NaN are not represented: no operation of \<open>audiodata.cpp\<close> tells them apart, and every
  divisor it uses is the conversion of an unsigned integer, so never a negative zero.
\<close>

datatype float = Finite rat | PlusInfinity | MinusInfinity | NaN

definition pow2 :: "int \<Rightarrow> rat" where
  "pow2 e = (if 0 \<le> e then 2 ^ nat e else 1 / 2 ^ nat (- e))"

text \<open>The number of binary digits of a positive integer.\<close>

function bitlen :: "int \<Rightarrow> nat" where
  "bitlen n = (if n \<le> 0 then 0 else Suc (bitlen (n div 2)))"
  by pat_completeness auto
termination
  by (relation "measure nat") auto

declare bitlen.simps [simp del]

text \<open>The exponent \<open>e\<close> with \<open>2^e \<le> q < 2^(e+1)\<close>, for a positive \<open>q\<close>.\<close>

definition binade :: "rat \<Rightarrow> int" where
  "binade q = (if 1 \<le> q then int (bitlen \<lfloor>q\<rfloor>) - 1
               else - int (bitlen (\<lceil>1 / q\<rceil> - 1)))"

text \<open>The nearest integer of a non-negative rational, ties to the even one.\<close>

definition round_half_even :: "rat \<Rightarrow> int" where
  "round_half_even m =
     (let f = \<lfloor>m\<rfloor>; d = m - of_int f
      in if d < 1 / 2 then f else if 1 / 2 < d then f + 1
         else if even f then f else f + 1)"

text \<open>
  Rounding a rational to binary32: 24 significant bits, the smallest normal exponent
  \<open>-126\<close> (below it the spacing stays \<open>2^-149\<close>, the subnormals), overflow to an
  infinity from \<open>2^128\<close> on after rounding.
\<close>

definition round_to_float :: "rat \<Rightarrow> float" where
  "round_to_float q =
     (if q = 0 then Finite 0
      else let a = \<bar>q\<bar>;
               e = max (binade a) (- 126);
               u = pow2 (e - 23);
               r = of_int (round_half_even (a / u)) * u
           in if pow2 128 \<le> r then (if 0 < q then PlusInfinity else MinusInfinity)
              else Finite (if 0 < q then r else - r))"

text \<open>A value of the model that a \<open>float\<close> variable can hold.\<close>

definition is_float :: "float \<Rightarrow> bool" where
  "is_float x = (case x of Finite q \<Rightarrow> round_to_float q = Finite q | _ \<Rightarrow> True)"

text \<open>\<open>a + b\<close> and \<open>a / b\<close> on \<open>float\<close>.\<close>

fun fadd :: "float \<Rightarrow> float \<Rightarrow> float" where
  "fadd (Finite a) (Finite b) = round_to_float (a + b)"
| "fadd NaN y = NaN"
| "fadd x NaN = NaN"
| "fadd PlusInfinity MinusInfinity = NaN"
| "fadd MinusInfinity PlusInfinity = NaN"
| "fadd PlusInfinity y = PlusInfinity"
| "fadd MinusInfinity y = MinusInfinity"
| "fadd (Finite a) y = y"

fun fdiv :: "float \<Rightarrow> float \<Rightarrow> float" where
  "fdiv (Finite a) (Finite b) =
     (if b = 0 then (if a = 0 then NaN else if 0 < a then PlusInfinity else MinusInfinity)
      else round_to_float (a / b))"
| "fdiv NaN y = NaN"
| "fdiv x NaN = NaN"
| "fdiv (Finite a) y = Finite 0"
| "fdiv PlusInfinity (Finite b) = (if 0 \<le> b then PlusInfinity else MinusInfinity)"
| "fdiv MinusInfinity (Finite b) = (if 0 \<le> b then MinusInfinity else PlusInfinity)"
| "fdiv x y = NaN"

text \<open>\<open>boost::math::isfinite\<close>.\<close>

fun isfinite :: "float \<Rightarrow> bool" where
  "isfinite (Finite q) = True"
| "isfinite x = False"

text \<open>The conversion \<open>(float) n\<close> of an \<open>unsigned int\<close>.\<close>

definition float_of_uint :: "32 word \<Rightarrow> float" where
  "float_of_uint n = round_to_float (of_int (uint n))"

text \<open>\<open>ceil\<close>: the ceiling of a binary32 value is a binary32 value, so nothing is rounded.\<close>

fun fceil :: "float \<Rightarrow> float" where
  "fceil (Finite q) = Finite (of_int \<lceil>q\<rceil>)"
| "fceil x = x"

text \<open>
  The conversion of a floating value to the \<open>size_type\<close> that \<open>resize\<close> takes truncates
  towards zero; C++ leaves it undefined (\<open>None\<close>) when the truncated value is not a
  value of the unsigned type, as for NaN, an infinity or \<open>-1\<close> and below.
\<close>

fun size_of_float :: "float \<Rightarrow> nat option" where
  "size_of_float (Finite q) = (if - 1 < q then Some (nat \<lfloor>q\<rfloor>) else None)"
| "size_of_float x = None"

section \<open>The buffer\<close>

text \<open>
  \<open>audiodata.cpp\<close> throws one class, \<open>Exception\<close>, with a message. The messages fall
  into the kinds below, which are the names the specification uses:
  \<^item> \<open>InvalidConfiguration\<close>: "New channel count must be > 0", "New frame rate must be
    > 0", "Channels must be > 0";
  \<^item> \<open>IncompatibleMerge\<close>: "Cannot append/prepend audio data with a different number of
    channels", "... with a different frame rate";
  \<^item> \<open>IncompatibleChannelLayout\<close>: "Apply to monophonic only";
  \<^item> \<open>OutOfBounds\<close>: "Cannot get/set out-of-bounds sample/frame/channel", "Cannot
    discard ... frames of ...", "Cannot slice ... samples of ...";
  \<^item> \<open>NonFiniteValue\<close>: "Cannot set sample to NaN".
\<close>

datatype error =
  InvalidConfiguration | IncompatibleMerge | IncompatibleChannelLayout | OutOfBounds
  | NonFiniteValue

text \<open>
  The class: a \<open>std::deque<float>\<close>, two \<open>unsigned int\<close>s and two deque iterators. An
  iterator is its offset from \<open>samples.begin()\<close>, \<open>None\<close> while it is singular (the
  constructor does not set the two members). Which iterators a change of the deque's
  size invalidates is not modelled; the cursor operations below are only used directly
  after \<open>resetIterators\<close>.
\<close>

record AudioData =
  samples :: "float list"
  channels :: "32 word"
  frameRate :: "32 word"
  readIterator :: "nat option"
  writeIterator :: "nat option"

text \<open>
  What a call does to its receiver: it returns (\<open>Done\<close>, with the new state or the
  result), it throws (\<open>Thrown\<close>, with the state the receiver is left in), or it runs
  into behaviour that C++ leaves undefined. A \<open>const\<close> member function is a function to
  \<open>error + 'a\<close>.
\<close>

datatype 'a outcome = Done 'a | Thrown error AudioData | Undefined

definition new_AudioData :: AudioData where
  "new_AudioData =
     \<lparr>samples = [], channels = 0, frameRate = 0, readIterator = None, writeIterator = None\<rparr>"

text \<open>\<open>std::deque::resize(n)\<close>, and \<open>resize(n, 0.0)\<close>: new elements are zero.\<close>

definition resize :: "nat \<Rightarrow> float list \<Rightarrow> float list" where
  "resize n xs = take n xs @ replicate (n - length xs) (Finite 0)"

definition getChannels :: "AudioData \<Rightarrow> 32 word" where
  "getChannels b = channels b"

definition setChannels :: "32 word \<Rightarrow> AudioData \<Rightarrow> AudioData outcome" where
  "setChannels newChannels b =
     (if newChannels < 1 then Thrown InvalidConfiguration b
      else Done (b\<lparr>channels := newChannels\<rparr>))"

definition getFrameRate :: "AudioData \<Rightarrow> 32 word" where
  "getFrameRate b = frameRate b"

definition setFrameRate :: "32 word \<Rightarrow> AudioData \<Rightarrow> AudioData outcome" where
  "setFrameRate newFrameRate b =
     (if newFrameRate < 1 then Thrown InvalidConfiguration b
      else Done (b\<lparr>frameRate := newFrameRate\<rparr>))"

text \<open>The adoption of the other buffer's configuration that opens \<open>append\<close> and \<open>prepend\<close>.\<close>

definition adopt :: "AudioData \<Rightarrow> AudioData \<Rightarrow> AudioData" where
  "adopt that b =
     (if channels b = 0 \<and> frameRate b = 0
      then b\<lparr>channels := channels that, frameRate := frameRate that\<rparr> else b)"

text \<open>\<open>append\<close> is \<open>append_data\<close> here, the name being taken by the lists of HOL.\<close>

definition append_data :: "AudioData \<Rightarrow> AudioData \<Rightarrow> AudioData outcome" where
  "append_data that b =
     (let b1 = adopt that b
      in if channels that \<noteq> channels b1 then Thrown IncompatibleMerge b1
         else if frameRate that \<noteq> frameRate b1 then Thrown IncompatibleMerge b1
         else Done (b1\<lparr>samples := samples b1 @ samples that\<rparr>))"

definition prepend :: "AudioData \<Rightarrow> AudioData \<Rightarrow> AudioData outcome" where
  "prepend that b =
     (let b1 = adopt that b
      in if channels that \<noteq> channels b1 then Thrown IncompatibleMerge b1
         else if frameRate that \<noteq> frameRate b1 then Thrown IncompatibleMerge b1
         else Done (b1\<lparr>samples := samples that @ samples b1\<rparr>))"

text \<open>\<open>samples.size()\<close> converted to the \<open>unsigned int\<close> that is returned.\<close>

definition getSampleCount :: "AudioData \<Rightarrow> 32 word" where
  "getSampleCount b = of_nat (length (samples b))"

definition getFrameCount :: "AudioData \<Rightarrow> error + 32 word" where
  "getFrameCount b =
     (if channels b < 1 then Inl InvalidConfiguration
      else Inr (getSampleCount b div channels b))"

definition getSample :: "32 word \<Rightarrow> AudioData \<Rightarrow> error + float" where
  "getSample index b =
     (if getSampleCount b \<le> index then Inl OutOfBounds
      else Inr (samples b ! unat index))"

definition getSampleByFrame :: "32 word \<Rightarrow> 32 word \<Rightarrow> AudioData \<Rightarrow> error + float" where
  "getSampleByFrame frame channel b =
     (case getFrameCount b of
        Inl e \<Rightarrow> Inl e
      | Inr frameCount \<Rightarrow>
          if frameCount \<le> frame then Inl OutOfBounds
          else if channels b \<le> channel then Inl OutOfBounds
          else getSample (frame * channels b + channel) b)"

definition setSample :: "32 word \<Rightarrow> float \<Rightarrow> AudioData \<Rightarrow> AudioData outcome" where
  "setSample index v b =
     (if getSampleCount b \<le> index then Thrown OutOfBounds b
      else if \<not> isfinite v then Thrown NonFiniteValue b
      else Done (b\<lparr>samples := (samples b)[unat index := v]\<rparr>))"

definition setSampleByFrame ::
  "32 word \<Rightarrow> 32 word \<Rightarrow> float \<Rightarrow> AudioData \<Rightarrow> AudioData outcome" where
  "setSampleByFrame frame channel v b =
     (case getFrameCount b of
        Inl e \<Rightarrow> Thrown e b
      | Inr frameCount \<Rightarrow>
          if frameCount \<le> frame then Thrown OutOfBounds b
          else if channels b \<le> channel then Thrown OutOfBounds b
          else setSample (frame * channels b + channel) v b)"

definition addToSampleCount :: "32 word \<Rightarrow> AudioData \<Rightarrow> AudioData" where
  "addToSampleCount newSamples b =
     b\<lparr>samples := resize (unat (getSampleCount b + newSamples)) (samples b)\<rparr>"

definition addToFrameCount :: "32 word \<Rightarrow> AudioData \<Rightarrow> AudioData outcome" where
  "addToFrameCount newFrames b =
     (if channels b < 1 then Thrown InvalidConfiguration b
      else Done (addToSampleCount (newFrames * channels b) b))"

section \<open>The loops\<close>

text \<open>
  The loops of \<open>reduceToMono\<close>, \<open>downsample\<close> and \<open>sliceSamplesFromBack\<close> walk a read
  and a write iterator over the deque. The iterators are offsets here. A loop returns
  the storage it leaves and a flag, and the run is over, with the flag set, at the first
  step that C++ leaves undefined:
  \<^item> a load \<open>*readAt\<close> at or past \<open>end()\<close>;
  \<^item> a store \<open>*writeAt = v\<close> at or past \<open>end()\<close>;
  \<^item> \<open>std::advance(readAt, factor)\<close> beyond \<open>end()\<close>.
  A \<open>while\<close> loop is a partial function: \<open>None\<close> is a loop that never ends.
\<close>

text \<open>
  The inner loop of \<open>reduceToMono\<close>, \<open>for (c = 0; c < channels; c++)\<close>, with the number
  of iterations left and the running \<open>sum\<close>: it reads without a bounds check.
\<close>

fun frame_sum :: "nat \<Rightarrow> float list \<Rightarrow> nat \<Rightarrow> float \<Rightarrow> (float \<times> nat) option" where
  "frame_sum 0 xs readAt acc = Some (acc, readAt)"
| "frame_sum (Suc c) xs readAt acc =
     (if readAt < length xs then frame_sum c xs (readAt + 1) (fadd acc (xs ! readAt))
      else None)"

partial_function (option) reduceToMono_loop ::
  "32 word \<Rightarrow> float list \<Rightarrow> nat \<Rightarrow> nat \<Rightarrow> (float list \<times> bool) option" where
  [code]: "reduceToMono_loop ch xs readAt writeAt =
     (if readAt < length xs then
        (case frame_sum (unat ch) xs readAt (Finite 0) of
           None \<Rightarrow> Some (xs, True)
         | Some (acc, readAt') \<Rightarrow>
             if length xs \<le> writeAt then Some (xs, True)
             else reduceToMono_loop ch (xs[writeAt := fdiv acc (float_of_uint ch)])
                    readAt' (writeAt + 1))
      else Some (xs, False))"

text \<open>
  The inner loop of \<open>downsample\<close> without the shortcut, \<open>for (s = 0; s < factor; s++)\<close>,
  with the number of iterations left and the divisor \<open>(float) factor\<close>: the division is
  inside the loop, after the guarded addition.
\<close>

fun block_mean :: "nat \<Rightarrow> float \<Rightarrow> float list \<Rightarrow> nat \<Rightarrow> float \<Rightarrow> float \<times> nat" where
  "block_mean 0 d xs readAt mean = (mean, readAt)"
| "block_mean (Suc s) d xs readAt mean =
     (if readAt < length xs
      then block_mean s d xs (readAt + 1) (fdiv (fadd mean (xs ! readAt)) d)
      else block_mean s d xs readAt (fdiv mean d))"

partial_function (option) downsample_loop ::
  "32 word \<Rightarrow> bool \<Rightarrow> float list \<Rightarrow> nat \<Rightarrow> nat \<Rightarrow> (float list \<times> bool) option" where
  [code]: "downsample_loop factor shortcut xs readAt writeAt =
     (if readAt < length xs then
        (if shortcut then
           (if length xs < readAt + unat factor then Some (xs, True)
            else if length xs \<le> writeAt then Some (xs, True)
            else downsample_loop factor shortcut (xs[writeAt := xs ! readAt])
                   (readAt + unat factor) (writeAt + 1))
         else
           (case block_mean (unat factor) (float_of_uint factor) xs readAt (Finite 0) of
              (mean, readAt') \<Rightarrow>
                if length xs \<le> writeAt then Some (xs, True)
                else downsample_loop factor shortcut (xs[writeAt := mean]) readAt' (writeAt + 1)))
      else Some (xs, False))"

text \<open>The copy loop of \<open>sliceSamplesFromBack\<close>, from \<open>xs\<close> into \<open>ys\<close>.\<close>

function copy_loop :: "float list \<Rightarrow> nat \<Rightarrow> float list \<Rightarrow> nat \<Rightarrow> float list \<times> bool" where
  "copy_loop xs readAt ys writeAt =
     (if readAt < length xs then
        (if length ys \<le> writeAt then (ys, True)
         else copy_loop xs (readAt + 1) (ys[writeAt := xs ! readAt]) (writeAt + 1))
      else (ys, False))"
  by pat_completeness auto
termination
  by (relation "measure (\<lambda>(xs, readAt, ys, writeAt). length xs - readAt)") auto

declare copy_loop.simps [simp del]

section \<open>Transforms, trimming and slicing\<close>

definition reduceToMono :: "AudioData \<Rightarrow> AudioData outcome option" where
  "reduceToMono b =
     (if channels b < 2 then Some (Done b)
      else case reduceToMono_loop (channels b) (samples b) 0 0 of
             None \<Rightarrow> None
           | Some (xs, ub) \<Rightarrow>
               if ub then Some Undefined
               else Some (Done (b\<lparr>samples := resize (unat (of_nat (length xs) div channels b :: 32 word)) xs,
                                  channels := 1\<rparr>)))"

text \<open>
  After its loop \<open>downsample\<close> resizes to \<open>ceil((float) getSampleCount() / (float) factor)\<close>
  and calls \<open>setFrameRate(getFrameRate() / factor)\<close>; the unsigned division by a zero
  \<open>factor\<close> is undefined in C++.
\<close>

definition downsample :: "32 word \<Rightarrow> bool \<Rightarrow> AudioData \<Rightarrow> AudioData outcome option" where
  "downsample factor shortcut b =
     (if factor = 1 then Some (Done b)
      else if 1 < channels b then Some (Thrown IncompatibleChannelLayout b)
      else case downsample_loop factor shortcut (samples b) 0 0 of
             None \<Rightarrow> None
           | Some (xs, ub) \<Rightarrow>
               if ub then Some Undefined
               else case size_of_float
                      (fceil (fdiv (float_of_uint (of_nat (length xs))) (float_of_uint factor))) of
                      None \<Rightarrow> Some Undefined
                    | Some n \<Rightarrow>
                        let b1 = b\<lparr>samples := resize n xs\<rparr>
                        in if factor = 0 then Some Undefined
                           else Some (setFrameRate (getFrameRate b1 div factor) b1))"

definition discardFramesFromFront :: "32 word \<Rightarrow> AudioData \<Rightarrow> AudioData outcome" where
  "discardFramesFromFront discardFrameCount b =
     (case getFrameCount b of
        Inl e \<Rightarrow> Thrown e b
      | Inr frameCount \<Rightarrow>
          if frameCount < discardFrameCount then Thrown OutOfBounds b
          else let discardSampleCount = discardFrameCount * channels b
               in Done (b\<lparr>samples := drop (unat discardSampleCount) (samples b)\<rparr>))"

text \<open>
  \<open>sliceSamplesFromBack\<close> returns the new buffer; the outcome pairs it with the receiver.
  An exception of \<open>that->setFrameRate\<close> leaves the function before the receiver is touched.
\<close>

definition sliceSamplesFromBack ::
  "32 word \<Rightarrow> AudioData \<Rightarrow> (AudioData \<times> AudioData) outcome" where
  "sliceSamplesFromBack sliceSampleCount b =
     (if getSampleCount b < sliceSampleCount then Thrown OutOfBounds b
      else case setFrameRate (getFrameRate b) (new_AudioData\<lparr>channels := channels b\<rparr>) of
             Thrown e that \<Rightarrow> Thrown e b
           | Undefined \<Rightarrow> Undefined
           | Done that1 \<Rightarrow>
               let that2 = addToSampleCount sliceSampleCount that1
               in case copy_loop (samples b) (unat (getSampleCount b - sliceSampleCount))
                         (samples that2) 0 of
                    (ys, ub) \<Rightarrow>
                      if ub then Undefined
                      else Done (that2\<lparr>samples := ys\<rparr>,
                                 b\<lparr>samples := resize (unat (getSampleCount b - sliceSampleCount))
                                                 (samples b)\<rparr>))"

section \<open>The streaming cursors\<close>

definition resetIterators :: "AudioData \<Rightarrow> AudioData" where
  "resetIterators b = b\<lparr>readIterator := Some 0, writeIterator := Some 0\<rparr>"

definition readIteratorWithinUpperBound :: "AudioData \<Rightarrow> bool option" where
  "readIteratorWithinUpperBound b = map_option (\<lambda>i. i < length (samples b)) (readIterator b)"

definition writeIteratorWithinUpperBound :: "AudioData \<Rightarrow> bool option" where
  "writeIteratorWithinUpperBound b = map_option (\<lambda>i. i < length (samples b)) (writeIterator b)"

definition advanceReadIterator :: "32 word \<Rightarrow> AudioData \<Rightarrow> AudioData" where
  "advanceReadIterator by' b = b\<lparr>readIterator := map_option (\<lambda>i. i + unat by') (readIterator b)\<rparr>"

definition advanceWriteIterator :: "32 word \<Rightarrow> AudioData \<Rightarrow> AudioData" where
  "advanceWriteIterator by' b = b\<lparr>writeIterator := map_option (\<lambda>i. i + unat by') (writeIterator b)\<rparr>"

text \<open>
  The two unchecked accesses. Moving a cursor only changes its offset; the access through
  a cursor that cannot be dereferenced is where undefined behaviour is reported.
\<close>

definition getSampleAtReadIterator :: "AudioData \<Rightarrow> float option" where
  "getSampleAtReadIterator b =
     (case readIterator b of
        None \<Rightarrow> None
      | Some i \<Rightarrow> if i < length (samples b) then Some (samples b ! i) else None)"

definition setSampleAtWriteIterator :: "float \<Rightarrow> AudioData \<Rightarrow> AudioData outcome" where
  "setSampleAtWriteIterator v b =
     (case writeIterator b of
        None \<Rightarrow> Undefined
      | Some i \<Rightarrow>
          if i < length (samples b) then Done (b\<lparr>samples := (samples b)[i := v]\<rparr>)
          else Undefined)"

section \<open>Example buffers\<close>

text \<open>A buffer with the given samples, channel count and frame rate, its cursors not set.\<close>

abbreviation buffer :: "float list \<Rightarrow> 32 word \<Rightarrow> 32 word \<Rightarrow> AudioData" where
  "buffer xs c f \<equiv>
     \<lparr>samples = xs, channels = c, frameRate = f, readIterator = None, writeIterator = None\<rparr>"

section \<open>Auxiliary notions for the statements\<close>

text \<open>
  The value \<open>reduceToMono\<close> stores for frame \<open>j\<close> of a two-channel storage: the sum
  starts at \<open>0.0\<close>, takes the two samples of the frame and is divided by the channel
  count.
\<close>

definition frame_mean :: "float list \<Rightarrow> nat \<Rightarrow> float" where
  "frame_mean xs j = fdiv (fadd (fadd (Finite 0) (xs ! (2 * j))) (xs ! (2 * j + 1))) (Finite 2)"

text \<open>The state a call leaves its receiver in, when it returns and when it throws.\<close>

fun state_after :: "AudioData outcome \<Rightarrow> AudioData option" where
  "state_after (Done b) = Some b"
| "state_after (Thrown e b) = Some b"
| "state_after Undefined = None"

text \<open>
  The buffers that can be built without an unchecked write of a value that is not finite
  and without the two averaging transforms: from the empty buffer by the setters, the
  merges with such buffers, the checked writes, growth, trimming, slicing (both the
  receiver and the new buffer), the stride form of \<open>downsample\<close>, the cursor movements,
  and \<open>setSampleAtWriteIterator\<close> with a finite value. A call that throws counts with
  the state it leaves.
\<close>

inductive checked_state :: "AudioData \<Rightarrow> bool" where
  construct: "checked_state new_AudioData"
| setChannels:
    "checked_state b \<Longrightarrow> state_after (setChannels n b) = Some b' \<Longrightarrow> checked_state b'"
| setFrameRate:
    "checked_state b \<Longrightarrow> state_after (setFrameRate n b) = Some b' \<Longrightarrow> checked_state b'"
| append:
    "checked_state b \<Longrightarrow> checked_state that \<Longrightarrow> state_after (append_data that b) = Some b'
       \<Longrightarrow> checked_state b'"
| prepend:
    "checked_state b \<Longrightarrow> checked_state that \<Longrightarrow> state_after (prepend that b) = Some b'
       \<Longrightarrow> checked_state b'"
| setSample:
    "checked_state b \<Longrightarrow> state_after (setSample i v b) = Some b' \<Longrightarrow> checked_state b'"
| setSampleByFrame:
    "checked_state b \<Longrightarrow> state_after (setSampleByFrame f c v b) = Some b'
       \<Longrightarrow> checked_state b'"
| addToSampleCount:
    "checked_state b \<Longrightarrow> checked_state (addToSampleCount n b)"
| addToFrameCount:
    "checked_state b \<Longrightarrow> state_after (addToFrameCount n b) = Some b' \<Longrightarrow> checked_state b'"
| discardFramesFromFront:
    "checked_state b \<Longrightarrow> state_after (discardFramesFromFront n b) = Some b'
       \<Longrightarrow> checked_state b'"
| slice_receiver:
    "checked_state b \<Longrightarrow> sliceSamplesFromBack n b = Done (that, b') \<Longrightarrow> checked_state b'"
| slice_result:
    "checked_state b \<Longrightarrow> sliceSamplesFromBack n b = Done (that, b') \<Longrightarrow> checked_state that"
| slice_thrown:
    "checked_state b \<Longrightarrow> sliceSamplesFromBack n b = Thrown e b' \<Longrightarrow> checked_state b'"
| downsample_shortcut:
    "checked_state b \<Longrightarrow> downsample factor True b = Some r \<Longrightarrow> state_after r = Some b'
       \<Longrightarrow> checked_state b'"
| resetIterators:
    "checked_state b \<Longrightarrow> checked_state (resetIterators b)"
| advanceReadIterator:
    "checked_state b \<Longrightarrow> checked_state (advanceReadIterator n b)"
| advanceWriteIterator:
    "checked_state b \<Longrightarrow> checked_state (advanceWriteIterator n b)"
| setSampleAtWriteIterator_finite:
    "checked_state b \<Longrightarrow> isfinite v \<Longrightarrow> state_after (setSampleAtWriteIterator v b) = Some b'
       \<Longrightarrow> checked_state b'"

section \<open>Unsigned arithmetic\<close>

lemma word_lt_1_iff: "(n :: 32 word) < 1 \<longleftrightarrow> n = 0"
  by (simp add: word_less_1)

lemma word_ge_1_iff: "(1 :: 32 word) \<le> n \<longleftrightarrow> n \<noteq> 0"
  by (metis word_lt_1_iff not_less)

lemma word_pred_less: "0 < (n :: 32 word) \<Longrightarrow> n - 1 < n"
  by (simp add: word_less_nat_alt unat_minus_one word_gt_0 unat_gt_0)

lemma unat_getSampleCount_le: "unat (getSampleCount b) \<le> length (samples b)"
  by (simp add: getSampleCount_def unat_of_nat)

lemma unat_getSampleCount:
  "length (samples b) < 2 ^ 32 \<Longrightarrow> unat (getSampleCount b) = length (samples b)"
  by (simp add: getSampleCount_def unat_of_nat)

lemma index_in_range: "\<not> getSampleCount b \<le> i \<Longrightarrow> unat i < length (samples b)"
  using unat_getSampleCount_le [of b] by (simp add: word_le_nat_alt)

section \<open>Configuration\<close>

text \<open>
  Claim C8. For every \<open>n \<ge> 1\<close>, \<open>setChannels(n)\<close> and \<open>setFrameRate(n)\<close> succeed, the
  getter returns \<open>n\<close> afterwards and no other field has changed (the new state is the old
  one with that one field updated); for \<open>n = 0\<close> both throw \<open>InvalidConfiguration\<close> and
  leave the buffer as it was.
\<close>

theorem setters_accept_positive_reject_zero:
  "(1 \<le> n \<longrightarrow>
      setChannels n b = Done (b\<lparr>channels := n\<rparr>) \<and> getChannels (b\<lparr>channels := n\<rparr>) = n
    \<and> setFrameRate n b = Done (b\<lparr>frameRate := n\<rparr>) \<and> getFrameRate (b\<lparr>frameRate := n\<rparr>) = n)
   \<and> setChannels 0 b = Thrown InvalidConfiguration b
   \<and> setFrameRate 0 b = Thrown InvalidConfiguration b"
  by (simp add: setChannels_def setFrameRate_def getChannels_def getFrameRate_def
      word_lt_1_iff word_ge_1_iff)

theorem setters_accept_positive_reject_zero_witness:
  "(1 :: 32 word) \<le> 2
   \<and> setChannels 2 (buffer [] 0 0) = Done (buffer [] 2 0)
   \<and> setFrameRate 2 (buffer [] 0 0) = Done (buffer [] 0 2)
   \<and> setChannels 0 (buffer [] 0 0) = Thrown InvalidConfiguration (buffer [] 0 0)"
  using setters_accept_positive_reject_zero [of 2 "buffer [] 0 0"] by simp

section \<open>Indexed access\<close>

text \<open>
  Claim C7. With \<open>sampleCount\<close> the value of \<open>getSampleCount()\<close>: \<open>getSample(index)\<close> and
  \<open>setSample(index, value)\<close> fail with \<open>OutOfBounds\<close> exactly when
  \<open>index \<ge> sampleCount\<close>, and below it \<open>getSample\<close> returns the stored element; for an
  index in range \<open>setSample\<close> fails with \<open>NonFiniteValue\<close> when the value is NaN or an
  infinity, and the buffer it leaves is the buffer before the call;
  \<open>getSample(sampleCount - 1)\<close> succeeds when \<open>sampleCount > 0\<close>; and on a buffer with
  a channel count \<open>getSampleByFrame(frameCount, 0)\<close> fails with \<open>OutOfBounds\<close>.
\<close>

theorem indexed_access_bounds:
  "(getSample i b = Inl OutOfBounds \<longleftrightarrow> getSampleCount b \<le> i)
   \<and> (i < getSampleCount b \<longrightarrow>
        unat i < length (samples b) \<and> getSample i b = Inr (samples b ! unat i))
   \<and> ((\<exists>b'. setSample i v b = Thrown OutOfBounds b') \<longleftrightarrow> getSampleCount b \<le> i)
   \<and> (i < getSampleCount b \<and> (v = NaN \<or> v = PlusInfinity \<or> v = MinusInfinity) \<longrightarrow>
        setSample i v b = Thrown NonFiniteValue b)
   \<and> (0 < getSampleCount b \<longrightarrow> (\<exists>x. getSample (getSampleCount b - 1) b = Inr x))
   \<and> (channels b \<noteq> 0 \<longrightarrow>
        (\<exists>frameCount. getFrameCount b = Inr frameCount
           \<and> getSampleByFrame frameCount 0 b = Inl OutOfBounds))"
proof (intro conjI)
  show "getSample i b = Inl OutOfBounds \<longleftrightarrow> getSampleCount b \<le> i"
    by (simp add: getSample_def)
  show "i < getSampleCount b \<longrightarrow>
        unat i < length (samples b) \<and> getSample i b = Inr (samples b ! unat i)"
    using index_in_range [of b i] by (auto simp add: getSample_def)
  show "(\<exists>b'. setSample i v b = Thrown OutOfBounds b') \<longleftrightarrow> getSampleCount b \<le> i"
    by (auto simp add: setSample_def)
  show "i < getSampleCount b \<and> (v = NaN \<or> v = PlusInfinity \<or> v = MinusInfinity) \<longrightarrow>
        setSample i v b = Thrown NonFiniteValue b"
    by (auto simp add: setSample_def)
  show "0 < getSampleCount b \<longrightarrow> (\<exists>x. getSample (getSampleCount b - 1) b = Inr x)"
    using word_pred_less [of "getSampleCount b"] by (auto simp add: getSample_def)
  show "channels b \<noteq> 0 \<longrightarrow>
        (\<exists>frameCount. getFrameCount b = Inr frameCount
           \<and> getSampleByFrame frameCount 0 b = Inl OutOfBounds)"
    by (simp add: getSampleByFrame_def getFrameCount_def word_lt_1_iff)
qed

theorem indexed_access_bounds_witness:
  "(1 :: 32 word) < getSampleCount (buffer [Finite 5, Finite 7] 1 44100)
   \<and> getSample 1 (buffer [Finite 5, Finite 7] 1 44100) = Inr (Finite 7)
   \<and> setSample 1 NaN (buffer [Finite 5, Finite 7] 1 44100)
       = Thrown NonFiniteValue (buffer [Finite 5, Finite 7] 1 44100)
   \<and> getSample 2 (buffer [Finite 5, Finite 7] 1 44100) = Inl OutOfBounds
   \<and> getSampleByFrame 2 0 (buffer [Finite 5, Finite 7] 1 44100) = Inl OutOfBounds"
  using indexed_access_bounds [of 1 "buffer [Finite 5, Finite 7] 1 44100" NaN]
    indexed_access_bounds [of 2 "buffer [Finite 5, Finite 7] 1 44100" NaN]
  by (simp add: getSampleCount_def getFrameCount_def)

section \<open>Slicing an unconfigured buffer\<close>

text \<open>
  Claim C10. On a buffer whose \<open>frameRate\<close> is 0, \<open>sliceSamplesFromBack(n)\<close> throws
  \<open>InvalidConfiguration\<close> for every \<open>n \<le> sampleCount\<close>: the exception is the one of
  \<open>setFrameRate\<close> on the new buffer, no buffer is returned, and the receiver is as it
  was.
\<close>

theorem slice_unconfigured_throws:
  "frameRate b = 0 \<Longrightarrow> n \<le> getSampleCount b \<Longrightarrow>
     sliceSamplesFromBack n b = Thrown InvalidConfiguration b"
  by (simp add: sliceSamplesFromBack_def setFrameRate_def getFrameRate_def not_less [symmetric])

theorem slice_unconfigured_throws_witness:
  "sliceSamplesFromBack 1 (buffer [Finite 5, Finite 7] 2 0)
     = Thrown InvalidConfiguration (buffer [Finite 5, Finite 7] 2 0)"
  by (rule slice_unconfigured_throws) (simp_all add: getSampleCount_def)

section \<open>Rounding\<close>

lemma pow2_powi: "pow2 e = power_int 2 e"
  by (simp add: pow2_def power_int_def field_simps)

lemma pow2_pos: "0 < pow2 e"
  by (simp add: pow2_powi)

lemma pow2_mono: "e \<le> e' \<Longrightarrow> pow2 e \<le> pow2 e'"
  by (simp add: pow2_powi power_int_increasing)

lemma pow2_add: "pow2 (a + b) = pow2 a * pow2 b"
  by (simp add: pow2_powi power_int_add)

lemma pow2_nat: "pow2 (int k) = 2 ^ k"
  by (simp add: pow2_def)

lemma bitlen_upper: "n < 2 ^ k \<Longrightarrow> bitlen n \<le> k"
proof (induction k arbitrary: n)
  case 0
  then show ?case by (subst bitlen.simps) simp
next
  case (Suc k)
  show ?case
  proof (cases "n \<le> 0")
    case True
    then show ?thesis by (subst bitlen.simps) simp
  next
    case False
    from Suc(2) have "n div 2 < 2 ^ k" by simp
    from Suc(1) [OF this] False show ?thesis by (subst bitlen.simps) simp
  qed
qed

lemma bitlen_lower: "0 < n \<Longrightarrow> 2 ^ bitlen n \<le> 2 * n"
proof (induction n rule: bitlen.induct)
  case (1 n)
  show ?case
  proof (cases "n div 2 \<le> 0")
    case True
    with 1(2) have n: "n = 1" by simp
    have "bitlen 1 = 1" by (simp add: bitlen.simps [of 1] bitlen.simps [of 0])
    with n show ?thesis by simp
  next
    case False
    with 1 have "2 ^ bitlen (n div 2) \<le> 2 * (n div 2)" by simp
    also have "\<dots> \<le> n" by simp
    finally show ?thesis using 1(2) by (subst bitlen.simps) simp
  qed
qed

lemma round_half_even_bounds:
  "\<lfloor>m\<rfloor> \<le> round_half_even m \<and> round_half_even m \<le> \<lfloor>m\<rfloor> + 1"
  by (simp add: round_half_even_def Let_def)

lemma binade_upper: "0 < q \<Longrightarrow> q < 2 ^ k \<Longrightarrow> binade q \<le> int k"
proof -
  assume q: "0 < q" "q < 2 ^ k"
  show ?thesis
  proof (cases "1 \<le> q")
    case True
    from q(2) have "\<lfloor>q\<rfloor> < 2 ^ k"
      by (metis floor_less_iff of_int_numeral of_int_power)
    from bitlen_upper [OF this] True show ?thesis by (simp add: binade_def)
  next
    case False
    then show ?thesis by (simp add: binade_def)
  qed
qed

lemma binade_lower: "1 \<le> q \<Longrightarrow> 0 \<le> binade q \<and> pow2 (binade q) \<le> q"
proof -
  assume q: "1 \<le> q"
  then have f: "0 < \<lfloor>q\<rfloor>" by simp
  from bitlen_lower [OF f] have b: "(2::int) ^ bitlen \<lfloor>q\<rfloor> \<le> 2 * \<lfloor>q\<rfloor>" .
  from f have pos: "0 < bitlen \<lfloor>q\<rfloor>" by (subst bitlen.simps) simp
  then obtain j where j: "bitlen \<lfloor>q\<rfloor> = Suc j" by (cases "bitlen \<lfloor>q\<rfloor>") auto
  with b have "(2::int) ^ j \<le> \<lfloor>q\<rfloor>" by simp
  then have "of_int ((2::int) ^ j) \<le> (of_int \<lfloor>q\<rfloor> :: rat)" by (simp only: of_int_le_iff)
  also have "\<dots> \<le> q" by simp
  finally have "(2::rat) ^ j \<le> q" by simp
  moreover from q j have "binade q = int j" by (simp add: binade_def)
  ultimately show ?thesis by (simp add: pow2_nat)
qed

text \<open>
  A rational from 0 up to \<open>2^40\<close> rounds to a finite value that is not negative, at least
  1 when the rational is, and at most \<open>2^17\<close> above it.
\<close>

lemma round_to_float_moderate:
  assumes "0 \<le> q" "q < 2 ^ 40"
  shows "\<exists>r. round_to_float q = Finite r \<and> 0 \<le> r \<and> (1 \<le> q \<longrightarrow> 1 \<le> r) \<and> r \<le> q + 2 ^ 17"
proof (cases "q = 0")
  case True
  then show ?thesis by (simp add: round_to_float_def)
next
  case False
  with assms have q: "0 < q" by simp
  define e where "e = max (binade q) (- 126)"
  define u where "u = pow2 (e - 23)"
  define r where "r = of_int (round_half_even (q / u)) * u"
  have u: "0 < u" by (simp add: u_def pow2_pos)
  from binade_upper [OF q assms(2)] have "e \<le> 40" by (simp add: e_def)
  then have "u \<le> pow2 17" unfolding u_def by (intro pow2_mono) simp
  then have u17: "u \<le> 2 ^ 17" using pow2_nat [of 17] by simp
  from round_half_even_bounds [of "q / u"]
  have ilo: "\<lfloor>q / u\<rfloor> \<le> round_half_even (q / u)"
    and "round_half_even (q / u) \<le> \<lfloor>q / u\<rfloor> + 1" by simp_all
  then have lo: "of_int \<lfloor>q / u\<rfloor> \<le> (of_int (round_half_even (q / u)) :: rat)"
    and hi': "(of_int (round_half_even (q / u)) :: rat) \<le> of_int (\<lfloor>q / u\<rfloor> + 1)"
    by (simp_all only: of_int_le_iff)
  from hi' have hi: "(of_int (round_half_even (q / u)) :: rat) \<le> of_int \<lfloor>q / u\<rfloor> + 1"
    by simp
  have "(of_int \<lfloor>q / u\<rfloor> :: rat) \<le> q / u" by simp
  with hi have "of_int (round_half_even (q / u)) \<le> q / u + 1" by linarith
  then have "r \<le> (q / u + 1) * u" unfolding r_def using u by (simp add: mult_right_mono)
  also have "\<dots> = q + u" using u by (simp add: field_simps)
  finally have rq: "r \<le> q + 2 ^ 17" using u17 by simp
  with assms(2) have "r < 2 ^ 40 + 2 ^ 17" by simp
  also have "\<dots> < (2::rat) ^ 128" by simp
  finally have small: "\<not> pow2 128 \<le> r" using pow2_nat [of 128] by simp
  from q u have "(0::rat) \<le> of_int \<lfloor>q / u\<rfloor>" by simp
  with lo have "0 \<le> (of_int (round_half_even (q / u)) :: rat)" by linarith
  with u have r0: "0 \<le> r" by (simp add: r_def)
  have r1: "1 \<le> r" if q1: "1 \<le> q"
  proof -
    from binade_lower [OF q1] have b: "0 \<le> binade q" "pow2 (binade q) \<le> q" by simp_all
    then have e: "e = binade q" by (simp add: e_def)
    have "pow2 (binade q) = pow2 23 * u" using pow2_add [of 23 "e - 23"] e by (simp add: u_def)
    with b(2) u have "pow2 23 \<le> q / u" by (simp add: field_simps)
    then have "2 ^ 23 \<le> q / u" using pow2_nat [of 23] by simp
    then have "(2::int) ^ 23 \<le> \<lfloor>q / u\<rfloor>" by (simp add: le_floor_iff)
    with ilo have "(2::int) ^ 23 \<le> round_half_even (q / u)" by linarith
    then have "of_int ((2::int) ^ 23) \<le> (of_int (round_half_even (q / u)) :: rat)"
      by (simp only: of_int_le_iff)
    then have "2 ^ 23 \<le> (of_int (round_half_even (q / u)) :: rat)" by simp
    then have "2 ^ 23 * u \<le> r" unfolding r_def using u by (simp add: mult_right_mono)
    moreover have "2 ^ 23 * u = pow2 (binade q)"
      using \<open>pow2 (binade q) = pow2 23 * u\<close> pow2_nat [of 23] by simp
    moreover have "1 \<le> pow2 (binade q)" using b(1) pow2_mono [of 0 "binade q"] by (simp add: pow2_def)
    ultimately show ?thesis by simp
  qed
  have "round_to_float q = Finite r"
    using q small by (simp add: round_to_float_def Let_def e_def u_def r_def)
  with r0 r1 rq show ?thesis by simp
qed


lemma float_of_uint_bounds:
  "\<exists>r. float_of_uint n = Finite r \<and> 0 \<le> r \<and> (n \<noteq> 0 \<longrightarrow> 1 \<le> r) \<and> r < 2 ^ 33"
proof -
  define k where "k = uint n"
  have "n \<noteq> 0 \<longrightarrow> uint n \<noteq> 0" by (simp add: uint_0_iff)
  moreover have "0 \<le> uint n" by simp
  ultimately have "n \<noteq> 0 \<longrightarrow> 1 \<le> uint n" by linarith
  then have k: "0 \<le> k" "k < 2 ^ 32" "n \<noteq> 0 \<longrightarrow> 1 \<le> k"
    using uint_bounded [of n] by (simp_all add: k_def)
  from k(2) have "of_int k < (of_int (2 ^ 32) :: rat)" by (simp only: of_int_less_iff)
  then have lt: "(of_int k :: rat) < 2 ^ 32" by simp
  then have "(of_int k :: rat) < 2 ^ 40" by simp
  moreover from k(1) have "(0::rat) \<le> of_int k" by simp
  ultimately obtain r where r: "round_to_float (of_int k) = Finite r" "0 \<le> r"
    "1 \<le> (of_int k :: rat) \<longrightarrow> 1 \<le> r" "r \<le> of_int k + 2 ^ 17"
    using round_to_float_moderate [of "of_int k"] by blast
  from k(3) have "n \<noteq> 0 \<longrightarrow> (1::rat) \<le> of_int k" by simp
  with r lt show ?thesis by (auto simp add: float_of_uint_def k_def)
qed

lemma resize_count_defined:
  assumes "factor \<noteq> 0"
  shows "\<exists>n. size_of_float (fceil (fdiv (float_of_uint c) (float_of_uint factor))) = Some n"
proof -
  from float_of_uint_bounds [of c] obtain a where
    a: "float_of_uint c = Finite a" "0 \<le> a" "a < 2 ^ 33" by blast
  from float_of_uint_bounds [of factor] assms obtain d where
    d: "float_of_uint factor = Finite d" "1 \<le> d" by blast
  from a d have "a / d \<le> a / 1" by (intro divide_left_mono) simp_all
  then have "a / d \<le> a" by simp
  with a have "a / d < 2 ^ 40" by simp
  moreover from a d have "0 \<le> a / d" by simp
  ultimately obtain q where q: "round_to_float (a / d) = Finite q" "0 \<le> q"
    using round_to_float_moderate [of "a / d"] by blast
  from q(2) have "0 \<le> \<lceil>q\<rceil>" by simp
  then have "(0 :: rat) \<le> of_int \<lceil>q\<rceil>" by (simp only: of_int_0_le_iff)
  then have "(- 1 :: rat) < of_int \<lceil>q\<rceil>" by linarith
  with a d q show ?thesis by simp
qed

section \<open>How downsample ends\<close>

lemma snd_block_mean:
  "snd (block_mean k d xs r m) = (if r < length xs then min (r + k) (length xs) else r)"
  by (induction k arbitrary: r m) auto

text \<open>
  Without the shortcut and with a factor that is not 0 the read position grows in every
  turn and stays within the storage, and the write position stays behind it: the loop
  ends by its condition.
\<close>

lemma downsample_loop_averaging:
  assumes "factor \<noteq> 0" "w \<le> r"
  shows "\<exists>ys. downsample_loop factor False xs r w = Some (ys, False) \<and> length ys = length xs"
  using assms(2)
proof (induction "length xs - r" arbitrary: xs r w rule: less_induct)
  case less
  show ?case
  proof (cases "r < length xs")
    case False
    then show ?thesis by (subst downsample_loop.simps) simp
  next
    case True
    from assms(1) have f: "0 < unat factor" by (simp add: unat_gt_0)
    obtain m r' where step:
      "block_mean (unat factor) (float_of_uint factor) xs r (Finite 0) = (m, r')"
      by (cases "block_mean (unat factor) (float_of_uint factor) xs r (Finite 0)")
    then have "r' = snd (block_mean (unat factor) (float_of_uint factor) xs r (Finite 0))"
      by simp
    with True f have r': "r < r'" by (simp add: snd_block_mean)
    with True less(2) have "length (xs[w := m]) - r' < length xs - r" "w + 1 \<le> r'" by simp_all
    then have "\<exists>ys. downsample_loop factor False (xs[w := m]) r' (w + 1) = Some (ys, False)
        \<and> length ys = length (xs[w := m])"
      by (rule less(1))
    with True step less(2) show ?thesis by (subst downsample_loop.simps) auto
  qed
qed

text \<open>
  With the shortcut the same holds where the stride divides what is left of the
  storage: the read position then lands on \<open>end()\<close>.
\<close>

lemma downsample_loop_stride:
  assumes "factor \<noteq> 0" "w \<le> r" "r \<le> length xs" "unat factor dvd length xs - r"
  shows "\<exists>ys. downsample_loop factor True xs r w = Some (ys, False) \<and> length ys = length xs"
  using assms(2-4)
proof (induction "length xs - r" arbitrary: xs r w rule: less_induct)
  case less
  show ?case
  proof (cases "r < length xs")
    case False
    then show ?thesis by (subst downsample_loop.simps) simp
  next
    case True
    from assms(1) have f: "0 < unat factor" by (simp add: unat_gt_0)
    from True have "0 < length xs - r" by simp
    with less(4) have "unat factor \<le> length xs - r" by (rule dvd_imp_le)
    with True have fit: "r + unat factor \<le> length xs" by simp
    from less(4) have "unat factor dvd length xs - r - unat factor"
      by (rule dvd_diff_nat) simp
    then have d: "unat factor dvd length (xs[w := xs ! r]) - (r + unat factor)"
      by (simp add: diff_diff_left)
    from True f less(2) fit have
      "length (xs[w := xs ! r]) - (r + unat factor) < length xs - r"
      "w + 1 \<le> r + unat factor" "r + unat factor \<le> length (xs[w := xs ! r])"
      by simp_all
    from less(1) [OF this d]
    have "\<exists>ys. downsample_loop factor True (xs[w := xs ! r]) (r + unat factor) (w + 1)
        = Some (ys, False) \<and> length ys = length (xs[w := xs ! r])" .
    with True fit less(2) show ?thesis by (subst downsample_loop.simps) auto
  qed
qed

text \<open>
  With the shortcut and a stride that does not divide what is left, the read iterator
  is moved beyond \<open>end()\<close> in the last turn, if no store has passed the end before.
\<close>

lemma downsample_loop_oversteps:
  assumes "factor \<noteq> 0" "\<not> unat factor dvd length xs - r"
  shows "\<exists>ys. downsample_loop factor True xs r w = Some (ys, True)"
  using assms(2)
proof (induction "length xs - r" arbitrary: xs r w rule: less_induct)
  case less
  from less(2) have r: "r < length xs" by (cases "r < length xs") auto
  from assms(1) have f: "0 < unat factor" by (simp add: unat_gt_0)
  show ?case
  proof (cases "length xs < r + unat factor \<or> length xs \<le> w")
    case True
    with r show ?thesis by (subst downsample_loop.simps) auto
  next
    case False
    then have fit: "r + unat factor \<le> length xs" and w: "w < length xs" by simp_all
    have "\<not> unat factor dvd length (xs[w := xs ! r]) - (r + unat factor)"
    proof
      assume "unat factor dvd length (xs[w := xs ! r]) - (r + unat factor)"
      then have "unat factor dvd (length xs - (r + unat factor)) + unat factor" by simp
      moreover from fit have "length xs - (r + unat factor) + unat factor = length xs - r"
        by simp
      ultimately show False using less(2) by simp
    qed
    moreover from r f have "length (xs[w := xs ! r]) - (r + unat factor) < length xs - r"
      by simp
    ultimately have
      "\<exists>ys. downsample_loop factor True (xs[w := xs ! r]) (r + unat factor) (w + 1)
         = Some (ys, True)"
      using less(1) by blast
    with r fit w show ?thesis by (subst downsample_loop.simps) auto
  qed
qed

text \<open>
  With the factor 0 the read position stays where it is and the write position moves on
  alone, until it stores at \<open>end()\<close>.
\<close>

lemma downsample_loop_zero_factor:
  assumes "r < length xs"
  shows "\<exists>ys. downsample_loop 0 shortcut xs r w = Some (ys, True)"
  using assms
proof (induction "length xs - w" arbitrary: xs w rule: less_induct)
  case less
  show ?case
  proof (cases "length xs \<le> w")
    case True
    with less(2) show ?thesis by (subst downsample_loop.simps) auto
  next
    case False
    then have "length (xs[w := m]) - (w + 1) < length xs - w" for m by simp
    moreover from less(2) have "r < length (xs[w := m])" for m by simp
    ultimately have "\<exists>ys. downsample_loop 0 shortcut (xs[w := m]) r (w + 1) = Some (ys, True)"
      for m using less(1) by blast
    from this [of "xs ! r"] this [of "Finite 0"] less(2) False show ?thesis
      by (subst downsample_loop.simps) (cases shortcut; auto)
  qed
qed

lemma setFrameRate_defined: "setFrameRate n b \<noteq> Undefined"
  by (simp add: setFrameRate_def)

lemma downsample_returns:
  assumes "factor \<noteq> 0" "shortcut \<longrightarrow> unat factor dvd length (samples b)"
  shows "\<exists>res. downsample factor shortcut b = Some res \<and> res \<noteq> Undefined"
proof -
  have "\<exists>ys. downsample_loop factor shortcut (samples b) 0 0 = Some (ys, False)"
  proof (cases shortcut)
    case True
    with assms downsample_loop_stride [of factor 0 0 "samples b"] show ?thesis by auto
  next
    case False
    with assms downsample_loop_averaging [of factor 0 0 "samples b"] show ?thesis by auto
  qed
  then obtain ys where loop: "downsample_loop factor shortcut (samples b) 0 0 = Some (ys, False)"
    by blast
  from resize_count_defined [OF assms(1)] obtain n where
    n: "size_of_float (fceil (fdiv (float_of_uint (of_nat (length ys))) (float_of_uint factor)))
          = Some n" by blast
  from loop n assms(1) show ?thesis
    by (simp add: downsample_def Let_def setFrameRate_defined)
qed

lemma downsample_zero_factor:
  assumes "channels b \<le> 1" "samples b \<noteq> []"
  shows "downsample 0 shortcut b = Some Undefined"
proof -
  from assms(2) downsample_loop_zero_factor [of 0 "samples b" shortcut 0]
  obtain ys where "downsample_loop 0 shortcut (samples b) 0 0 = Some (ys, True)" by auto
  with assms(1) show ?thesis by (simp add: downsample_def not_less [symmetric])
qed

lemma downsample_oversteps:
  assumes "factor \<noteq> 1" "channels b \<le> 1" "\<not> unat factor dvd length (samples b)"
  shows "downsample factor True b = Some Undefined"
proof (cases "factor = 0")
  case True
  with assms(3) have "samples b \<noteq> []" by auto
  with True assms(2) show ?thesis by (simp add: downsample_zero_factor)
next
  case False
  from assms(3) downsample_loop_oversteps [OF False, of "samples b" 0 0]
  obtain ys where "downsample_loop factor True (samples b) 0 0 = Some (ys, True)" by auto
  with assms(1,2) show ?thesis by (simp add: downsample_def not_less [symmetric])
qed

lemma downsample_ends: "\<exists>res. downsample factor shortcut b = Some res"
proof (cases "factor = 1 \<or> 1 < channels b")
  case True
  then show ?thesis by (auto simp add: downsample_def)
next
  case False
  then have c: "channels b \<le> 1" and f1: "factor \<noteq> 1" by (simp_all add: not_less)
  show ?thesis
  proof (cases "factor = 0")
    case True
    show ?thesis
    proof (cases "samples b = []")
      case True
      then have "downsample_loop factor shortcut (samples b) 0 0 = Some ([], False)"
        by (subst downsample_loop.simps) simp
      then show ?thesis by (simp add: downsample_def Let_def split: option.split)
    next
      case False
      with True c show ?thesis by (simp add: downsample_zero_factor)
    qed
  next
    case False
    show ?thesis
    proof (cases "shortcut \<and> \<not> unat factor dvd length (samples b)")
      case True
      with f1 c show ?thesis by (simp add: downsample_oversteps)
    next
      case no: False
      with downsample_returns [OF False, of shortcut b] show ?thesis by auto
    qed
  qed
qed

text \<open>
  Claim C9, as the code has it. \<open>downsample(factor, shortcut)\<close> comes to an end for
  every buffer and every factor. With \<open>factor \<ge> 1\<close> it returns or throws, without
  undefined behaviour, when \<open>shortcut\<close> is false, and when \<open>shortcut\<close> is true and the
  factor divides the length of the storage. With \<open>factor = 0\<close>, at most one channel and
  a storage that is not empty, the call runs into undefined behaviour. So it does with
  \<open>shortcut\<close> true, at most one channel and a factor other than 1 that does not divide
  the length of the storage.
\<close>

theorem downsample_ends_returning_or_undefined:
  "(\<exists>res. downsample factor shortcut b = Some res)
   \<and> (factor \<noteq> 0 \<and> (shortcut \<longrightarrow> unat factor dvd length (samples b)) \<longrightarrow>
        (\<exists>res. downsample factor shortcut b = Some res \<and> res \<noteq> Undefined))
   \<and> (factor = 0 \<and> channels b \<le> 1 \<and> samples b \<noteq> [] \<longrightarrow>
        downsample factor shortcut b = Some Undefined)
   \<and> (shortcut \<and> factor \<noteq> 1 \<and> channels b \<le> 1 \<and> \<not> unat factor dvd length (samples b) \<longrightarrow>
        downsample factor shortcut b = Some Undefined)"
  using downsample_ends [of factor shortcut b] downsample_returns [of factor shortcut b]
    downsample_zero_factor [of b shortcut] downsample_oversteps [of factor b]
  by auto

theorem downsample_ends_returning_or_undefined_witness:
  "(2 :: 32 word) \<noteq> 0
   \<and> unat (2 :: 32 word) dvd length (samples (buffer [Finite 2, Finite 3] 1 44100))
   \<and> (\<exists>res. downsample 2 True (buffer [Finite 2, Finite 3] 1 44100) = Some res
         \<and> res \<noteq> Undefined)
   \<and> (\<exists>res. downsample 3 False (buffer [Finite 2, Finite 3] 1 44100) = Some res
         \<and> res \<noteq> Undefined)
   \<and> channels (buffer [Finite 2, Finite 3] 1 44100) \<le> 1
   \<and> samples (buffer [Finite 2, Finite 3] 1 44100) \<noteq> []
   \<and> downsample 0 False (buffer [Finite 2, Finite 3] 1 44100) = Some Undefined
   \<and> downsample 0 True (buffer [Finite 2, Finite 3] 1 44100) = Some Undefined
   \<and> \<not> unat (3 :: 32 word) dvd length (samples (buffer [Finite 2, Finite 3] 1 44100))
   \<and> downsample 3 True (buffer [Finite 2, Finite 3] 1 44100) = Some Undefined"
proof -
  let ?b = "buffer [Finite 2, Finite 3] 1 44100"
  have "unat (3 :: 32 word) = 3" "length (samples ?b) = 2" by simp_all
  moreover have "\<not> (3 :: nat) dvd 2" by presburger
  ultimately have nd: "\<not> unat (3 :: 32 word) dvd length (samples ?b)"
    by metis
  have d: "unat (2 :: 32 word) dvd length (samples ?b)" by simp
  from downsample_ends_returning_or_undefined [of 2 True ?b] d
  have 1: "\<exists>res. downsample 2 True ?b = Some res \<and> res \<noteq> Undefined" by simp
  from downsample_ends_returning_or_undefined [of 3 False ?b]
  have 2: "\<exists>res. downsample 3 False ?b = Some res \<and> res \<noteq> Undefined" by simp
  from downsample_ends_returning_or_undefined [of 0 False ?b]
  have 3: "downsample 0 False ?b = Some Undefined" by simp
  from downsample_ends_returning_or_undefined [of 0 True ?b]
  have 4: "downsample 0 True ?b = Some Undefined" by simp
  from downsample_ends_returning_or_undefined [of 3 True ?b] nd
  have 5: "downsample 3 True ?b = Some Undefined" by simp
  from 1 2 3 4 5 nd d show ?thesis by simp
qed

text \<open>
  The claim as it is written fails on both counts. With the factor 0 on the mono buffer
  \<open>[2, 3]\<close> the loop does not run for ever: its third turn stores at \<open>end()\<close>, with and
  without the shortcut. And a factor of at least 1 does not make the call return: on the
  mono buffer \<open>[1, 2, 3]\<close>, \<open>downsample(2, true)\<close> moves the read iterator from position 2
  beyond \<open>end()\<close>.
\<close>

theorem downsample_zero_factor_and_overstep_counterexample:
  "downsample 0 False (buffer [Finite 2, Finite 3] 1 44100) = Some Undefined
   \<and> downsample 0 True (buffer [Finite 2, Finite 3] 1 44100) = Some Undefined
   \<and> downsample 2 True (buffer [Finite 1, Finite 2, Finite 3] 1 44100) = Some Undefined"
  by code_simp

section \<open>downsample on concrete buffers\<close>

text \<open>
  Claim C1 (an operation that fails leaves samples, channels and frameRate as they
  were). On the mono buffer \<open>[1, 2, 3, 4]\<close> with frame rate 1, \<open>downsample(2, true)\<close>
  throws \<open>InvalidConfiguration\<close>, from \<open>setFrameRate(1 / 2)\<close>, after the storage has been
  decimated and resized to \<open>[1, 3]\<close>.
\<close>

theorem downsample_throws_after_decimating:
  "downsample 2 True (buffer [Finite 1, Finite 2, Finite 3, Finite 4] 1 1)
     = Some (Thrown InvalidConfiguration (buffer [Finite 1, Finite 3] 1 1))"
  by code_simp

text \<open>
  Claim C2 (without the shortcut every output sample is the mean of its block; the mono
  samples \<open>[2, 3, 6, 7]\<close> at 44100 give \<open>[2.5, 6.5]\<close> at 22050). The code divides the
  running value by the factor in every iteration of the inner loop, so the block
  \<open>(a, b)\<close> gives \<open>a/4 + b/2\<close>: the scenario yields \<open>[2, 5]\<close> at 22050.
\<close>

theorem downsample_scenario_yields_2_5:
  "downsample 2 False (buffer [Finite 2, Finite 3, Finite 6, Finite 7] 1 44100)
     = Some (Done (buffer [Finite 2, Finite 5] 1 22050))"
  by code_simp

text \<open>
  The new length is computed in \<open>float\<close> as well, so it need not be the ceiling of the
  exact quotient: for 16777217 samples and the factor 2 the count rounds to 16777216 and
  the new length is 8388608, one less than the ceiling of the quotient.
\<close>

lemma resize_count_of_16777217_samples:
  "fceil (fdiv (float_of_uint 16777217) (float_of_uint 2)) = Finite 8388608
   \<and> \<lceil>16777217 / (2 :: rat)\<rceil> = 8388609"
  by code_simp

text \<open>
  The other operations check before they change anything: when one of them throws, the
  receiver is as it was. So does \<open>downsample\<close> where it rejects a buffer of several
  channels.
\<close>

lemma throwing_call_leaves_receiver:
  "setChannels n b = Thrown e b' \<Longrightarrow> b' = b"
  "setFrameRate n b = Thrown e b' \<Longrightarrow> b' = b"
  "append_data that b = Thrown e b' \<Longrightarrow> b' = b"
  "prepend that b = Thrown e b' \<Longrightarrow> b' = b"
  "setSample i v b = Thrown e b' \<Longrightarrow> b' = b"
  "setSampleByFrame f c v b = Thrown e b' \<Longrightarrow> b' = b"
  "addToFrameCount n b = Thrown e b' \<Longrightarrow> b' = b"
  "discardFramesFromFront n b = Thrown e b' \<Longrightarrow> b' = b"
  "sliceSamplesFromBack n b = Thrown e b' \<Longrightarrow> b' = b"
  "reduceToMono b \<noteq> Some (Thrown e b')"
  "setSampleAtWriteIterator v b \<noteq> Thrown e b'"
  "downsample factor shortcut b = Some (Thrown IncompatibleChannelLayout b') \<Longrightarrow> b' = b"
proof -
  show "setChannels n b = Thrown e b' \<Longrightarrow> b' = b"
    by (auto simp add: setChannels_def split: if_splits)
  show "setFrameRate n b = Thrown e b' \<Longrightarrow> b' = b"
    by (auto simp add: setFrameRate_def split: if_splits)
  show "append_data that b = Thrown e b' \<Longrightarrow> b' = b"
    by (auto simp add: append_data_def adopt_def Let_def split: if_splits)
  show "prepend that b = Thrown e b' \<Longrightarrow> b' = b"
    by (auto simp add: prepend_def adopt_def Let_def split: if_splits)
  show "setSample i v b = Thrown e b' \<Longrightarrow> b' = b"
    by (auto simp add: setSample_def split: if_splits)
  show "setSampleByFrame f c v b = Thrown e b' \<Longrightarrow> b' = b"
    by (auto simp add: setSampleByFrame_def setSample_def split: if_splits sum.splits)
  show "addToFrameCount n b = Thrown e b' \<Longrightarrow> b' = b"
    by (auto simp add: addToFrameCount_def split: if_splits)
  show "discardFramesFromFront n b = Thrown e b' \<Longrightarrow> b' = b"
    by (auto simp add: discardFramesFromFront_def Let_def split: if_splits sum.splits)
  show "sliceSamplesFromBack n b = Thrown e b' \<Longrightarrow> b' = b"
    by (auto simp add: sliceSamplesFromBack_def Let_def
        split: if_splits outcome.splits prod.splits)
  show "reduceToMono b \<noteq> Some (Thrown e b')"
    by (auto simp add: reduceToMono_def split: if_splits option.splits prod.splits)
  show "setSampleAtWriteIterator v b \<noteq> Thrown e b'"
    by (auto simp add: setSampleAtWriteIterator_def split: option.splits)
  show "downsample factor shortcut b = Some (Thrown IncompatibleChannelLayout b') \<Longrightarrow> b' = b"
    by (auto simp add: downsample_def setFrameRate_def Let_def
        split: if_splits option.splits prod.splits)
qed

section \<open>Merging and trimming\<close>

lemma adopt_configured: "channels b \<noteq> 0 \<or> frameRate b \<noteq> 0 \<Longrightarrow> adopt that b = b"
  by (auto simp add: adopt_def)

lemma unat_getFrameCount:
  assumes "channels b \<noteq> 0" "length (samples b) < 2 ^ 32"
  shows "\<exists>f. getFrameCount b = Inr f \<and> unat f = length (samples b) div unat (channels b)"
  using assms by (simp add: getFrameCount_def word_lt_1_iff unat_div unat_getSampleCount)

lemma unat_frames_times_channels:
  assumes "unat f = length xs div unat c" "length xs < 2 ^ 32"
  shows "unat (f * c :: 32 word) = length xs div unat c * unat c"
proof -
  have "unat f * unat c \<le> length xs" using assms(1) by simp
  with assms(2) have "unat f * unat c < 2 ^ LENGTH(32)" by simp
  then have "unat (f * c) = unat f * unat c" by (simp only: unat_mult_lem)
  with assms(1) show ?thesis by simp
qed

text \<open>Discarding the frames of \<open>b\<close> from a storage \<open>xs\<close> that is at least as long.\<close>

lemma discard_after_merge:
  assumes c: "channels a = channels b" and c0: "channels b \<noteq> 0"
    and size: "length xs < 2 ^ 32" and lb: "length (samples b) \<le> length xs"
    and sb: "length (samples b) < 2 ^ 32"
    and whole: "unat (channels b) dvd length (samples b)"
    and f: "getFrameCount b = Inr f"
  shows "discardFramesFromFront f (a\<lparr>samples := xs\<rparr>)
           = Done (a\<lparr>samples := drop (length (samples b)) xs\<rparr>)"
proof -
  from unat_getFrameCount [OF c0 sb] f
  have uf: "unat f = length (samples b) div unat (channels b)" by simp
  from c c0 size
  have fc: "getFrameCount (a\<lparr>samples := xs\<rparr>) = Inr (of_nat (length xs) div channels b)"
    by (simp add: getFrameCount_def word_lt_1_iff getSampleCount_def)
  have "unat (of_nat (length xs) div channels b :: 32 word) = length xs div unat (channels b)"
    using size by (simp add: unat_div unat_of_nat)
  with uf lb have le: "f \<le> of_nat (length xs) div channels b"
    by (simp add: word_le_nat_alt div_le_mono)
  from unat_frames_times_channels [OF uf sb] whole
  have "unat (f * channels b) = length (samples b)" by simp
  with fc le c show ?thesis
    by (simp add: discardFramesFromFront_def not_less [symmetric])
qed

text \<open>
  Claim C4, as the code has it. Let \<open>a\<close> and \<open>b\<close> have the same channel count and frame
  rate, both set, let \<open>b\<close> hold whole frames, \<open>f\<close> of them by \<open>getFrameCount()\<close>, and let
  the two storages together stay below \<open>2^32\<close> samples. Then \<open>a.prepend(b)\<close> followed by
  \<open>a.discardFramesFromFront(f)\<close> succeeds and gives \<open>a\<close> back. \<open>a.append(b)\<close> followed
  by the same call succeeds as well, and leaves \<open>a\<close> with the concatenation of \<open>a\<close>'s and
  \<open>b\<close>'s samples without its first samples, as many as \<open>b\<close> holds.
\<close>

theorem merge_then_discard_front:
  assumes c: "channels a = channels b" and c0: "channels b \<noteq> 0"
    and r: "frameRate a = frameRate b" and r0: "frameRate b \<noteq> 0"
    and size: "length (samples a) + length (samples b) < 2 ^ 32"
    and whole: "unat (channels b) dvd length (samples b)"
  shows "\<exists>f a1 a2. getFrameCount b = Inr f
           \<and> prepend b a = Done a1 \<and> discardFramesFromFront f a1 = Done a
           \<and> append_data b a = Done a2
           \<and> discardFramesFromFront f a2
               = Done (a\<lparr>samples := drop (length (samples b)) (samples a @ samples b)\<rparr>)"
proof -
  from size have sb: "length (samples b) < 2 ^ 32" by simp
  from unat_getFrameCount [OF c0 sb] obtain f where f: "getFrameCount b = Inr f" by blast
  from c c0 have ad: "adopt b a = a" by (simp add: adopt_configured)
  from ad c r have p: "prepend b a = Done (a\<lparr>samples := samples b @ samples a\<rparr>)"
    by (simp add: prepend_def)
  from ad c r have ap: "append_data b a = Done (a\<lparr>samples := samples a @ samples b\<rparr>)"
    by (simp add: append_data_def)
  have "discardFramesFromFront f (a\<lparr>samples := samples b @ samples a\<rparr>)
          = Done (a\<lparr>samples := drop (length (samples b)) (samples b @ samples a)\<rparr>)"
    using size by (intro discard_after_merge [OF c c0 _ _ sb whole f]) simp_all
  then have d1: "discardFramesFromFront f (a\<lparr>samples := samples b @ samples a\<rparr>) = Done a"
    by simp
  have d2: "discardFramesFromFront f (a\<lparr>samples := samples a @ samples b\<rparr>)
          = Done (a\<lparr>samples := drop (length (samples b)) (samples a @ samples b)\<rparr>)"
    using size by (intro discard_after_merge [OF c c0 _ _ sb whole f]) simp_all
  from f p ap d1 d2 show ?thesis by simp
qed

theorem merge_then_discard_front_witness:
  "\<exists>f a1 a2. getFrameCount (buffer [Finite 5, Finite 6] 2 44100) = Inr f
     \<and> prepend (buffer [Finite 5, Finite 6] 2 44100)
         (buffer [Finite 1, Finite 2, Finite 3, Finite 4] 2 44100) = Done a1
     \<and> discardFramesFromFront f a1 = Done (buffer [Finite 1, Finite 2, Finite 3, Finite 4] 2 44100)
     \<and> append_data (buffer [Finite 5, Finite 6] 2 44100)
         (buffer [Finite 1, Finite 2, Finite 3, Finite 4] 2 44100) = Done a2
     \<and> discardFramesFromFront f a2 = Done (buffer [Finite 3, Finite 4, Finite 5, Finite 6] 2 44100)"
  using merge_then_discard_front
    [of "buffer [Finite 1, Finite 2, Finite 3, Finite 4] 2 44100"
        "buffer [Finite 5, Finite 6] 2 44100"]
  by simp

text \<open>
  The claim as it is written fails: on the mono buffers \<open>[1, 2]\<close> and \<open>[3]\<close>, \<open>append\<close>
  and then \<open>discardFramesFromFront(1)\<close> leave \<open>[2, 3]\<close>. And where the two storages
  reach \<open>2^32\<close> samples together, the frame count of the merged buffer wraps and
  \<open>discardFramesFromFront\<close> throws.
\<close>

theorem append_then_discard_front_counterexample:
  "append_data (buffer [Finite 3] 1 44100) (buffer [Finite 1, Finite 2] 1 44100)
     = Done (buffer [Finite 1, Finite 2, Finite 3] 1 44100)
   \<and> getFrameCount (buffer [Finite 3] 1 44100) = Inr 1
   \<and> discardFramesFromFront 1 (buffer [Finite 1, Finite 2, Finite 3] 1 44100)
     = Done (buffer [Finite 2, Finite 3] 1 44100)
   \<and> samples (buffer [Finite 2, Finite 3] 1 44100) \<noteq> samples (buffer [Finite 1, Finite 2] 1 44100)
   \<and> append_data (buffer [Finite 3] 1 44100) (buffer (replicate (2 ^ 32 - 1) (Finite 0)) 1 44100)
     = Done (buffer (replicate (2 ^ 32 - 1) (Finite 0) @ [Finite 3]) 1 44100)
   \<and> discardFramesFromFront 1 (buffer (replicate (2 ^ 32 - 1) (Finite 0) @ [Finite 3]) 1 44100)
     = Thrown OutOfBounds (buffer (replicate (2 ^ 32 - 1) (Finite 0) @ [Finite 3]) 1 44100)"
  by (simp add: append_data_def adopt_def getFrameCount_def getSampleCount_def
      discardFramesFromFront_def)

section \<open>Slicing and appending back\<close>

text \<open>
  The copy loop, started where the target has room for the rest of the source, writes
  that rest into the target and never stores out of range.
\<close>

lemma copy_loop_copies:
  "r \<le> length xs \<Longrightarrow> w + (length xs - r) \<le> length ys \<Longrightarrow>
     copy_loop xs r ys w = (take w ys @ drop r xs @ drop (w + (length xs - r)) ys, False)"
proof (induction xs r ys w rule: copy_loop.induct)
  case (1 xs r ys w)
  show ?case
  proof (cases "r < length xs")
    case False
    with 1(2) show ?thesis by (subst copy_loop.simps) simp
  next
    case True
    with 1(3) have w: "w < length ys" by simp
    then have nw: "\<not> length ys \<le> w" by simp
    from True 1(3) have
      "copy_loop xs (r + 1) (ys[w := xs ! r]) (w + 1)
         = (take (w + 1) (ys[w := xs ! r]) @ drop (r + 1) xs
              @ drop (w + 1 + (length xs - (r + 1))) (ys[w := xs ! r]), False)"
      by (intro 1(1) [OF True nw]) simp_all
    moreover have "take (w + 1) (ys[w := xs ! r]) = take w ys @ [xs ! r]"
      using w by (simp add: take_Suc_conv_app_nth)
    moreover have "drop r xs = xs ! r # drop (r + 1) xs"
      using True by (simp add: Cons_nth_drop_Suc)
    moreover have "w + 1 + (length xs - (r + 1)) = w + (length xs - r)"
      using True by simp
    ultimately show ?thesis using True w by (subst copy_loop.simps) simp
  qed
qed

text \<open>
  Claim C5, as the code has it. On a buffer whose frame rate is set and whose storage
  holds fewer than \<open>2^32\<close> samples, \<open>sliceSamplesFromBack(n)\<close> with \<open>n \<le> sampleCount\<close>
  returns a buffer with the last \<open>n\<close> samples and the receiver's channel count and frame
  rate, leaves the receiver with the samples before them, and appending the returned
  buffer to the receiver gives the original buffer back: its samples, channels and
  frameRate.
\<close>

theorem slice_then_append_restores:
  assumes r0: "frameRate b \<noteq> 0" and size: "length (samples b) < 2 ^ 32"
    and n: "n \<le> getSampleCount b"
  shows "\<exists>that b'. sliceSamplesFromBack n b = Done (that, b')
           \<and> samples that = drop (length (samples b) - unat n) (samples b)
           \<and> samples b' = take (length (samples b) - unat n) (samples b)
           \<and> channels that = channels b \<and> frameRate that = frameRate b
           \<and> channels b' = channels b \<and> frameRate b' = frameRate b
           \<and> append_data that b' = Done b"
proof -
  let ?k = "length (samples b) - unat n"
  from n size have un: "unat n \<le> length (samples b)"
    by (simp add: word_le_nat_alt unat_getSampleCount)
  from n size have start: "unat (getSampleCount b - n) = ?k"
    by (simp add: unat_sub unat_getSampleCount)
  let ?that1 = "new_AudioData\<lparr>channels := channels b, frameRate := frameRate b\<rparr>"
  have s2: "samples (addToSampleCount n ?that1) = replicate (unat n) (Finite 0)"
    by (simp add: addToSampleCount_def getSampleCount_def new_AudioData_def resize_def)
  have "copy_loop (samples b) ?k (replicate (unat n) (Finite 0)) 0
          = (take 0 (replicate (unat n) (Finite 0)) @ drop ?k (samples b)
               @ drop (0 + (length (samples b) - ?k)) (replicate (unat n) (Finite 0)), False)"
    using un by (intro copy_loop_copies) simp_all
  then have cp: "copy_loop (samples b) ?k (replicate (unat n) (Finite 0)) 0
          = (drop ?k (samples b), False)"
    using un by simp
  have sl: "sliceSamplesFromBack n b
      = Done ((addToSampleCount n ?that1)\<lparr>samples := drop ?k (samples b)\<rparr>,
              b\<lparr>samples := take ?k (samples b)\<rparr>)"
    using n r0 start s2 cp
    by (simp add: sliceSamplesFromBack_def setFrameRate_def getFrameRate_def word_lt_1_iff
        not_less [symmetric] resize_def)
  have ch: "channels (addToSampleCount n ?that1) = channels b"
    and fr: "frameRate (addToSampleCount n ?that1) = frameRate b"
    by (simp_all add: addToSampleCount_def)
  have ap: "append_data ((addToSampleCount n ?that1)\<lparr>samples := drop ?k (samples b)\<rparr>)
              (b\<lparr>samples := take ?k (samples b)\<rparr>) = Done b"
    using r0 ch fr by (simp add: append_data_def adopt_def)
  from sl ch fr ap show ?thesis by simp
qed

theorem slice_then_append_restores_witness:
  "\<exists>that b'. sliceSamplesFromBack 2 (buffer [Finite 1, Finite 2, Finite 3] 1 44100) = Done (that, b')
     \<and> samples that = [Finite 2, Finite 3] \<and> samples b' = [Finite 1]
     \<and> append_data that b' = Done (buffer [Finite 1, Finite 2, Finite 3] 1 44100)"
  using slice_then_append_restores [of "buffer [Finite 1, Finite 2, Finite 3] 1 44100" 2]
  by (auto simp add: getSampleCount_def)

text \<open>
  From \<open>2^32\<close> samples on the count that \<open>getSampleCount()\<close> returns has wrapped: the
  check of \<open>sliceSamplesFromBack(0)\<close> passes and the first turn of the copy loop stores
  into a new buffer that is empty.
\<close>

lemma slice_of_2_32_samples:
  "sliceSamplesFromBack 0 (buffer (replicate (2 ^ 32) (Finite 0)) 1 44100) = Undefined"
proof -
  let ?b = "buffer (replicate (2 ^ 32) (Finite 0)) 1 44100"
  have c: "getSampleCount ?b = 0" by (simp add: getSampleCount_def)
  have "copy_loop (replicate (2 ^ 32) (Finite 0)) 0 [] 0 = ([], True)"
    by (subst copy_loop.simps) simp
  then show ?thesis using c
    by (simp add: sliceSamplesFromBack_def setFrameRate_def getFrameRate_def
        addToSampleCount_def new_AudioData_def resize_def Let_def getSampleCount_def)
qed

text \<open>
  The claim as it is written, for every buffer, fails where the frame rate was never
  set: on \<open>[0, 0]\<close> with \<open>channels = 0\<close> and \<open>frameRate = 0\<close> (the state after
  \<open>addToSampleCount(2)\<close> on a new buffer) \<open>sliceSamplesFromBack(1)\<close> throws and there is
  no buffer to append. It also fails from \<open>2^32\<close> samples on, where \<open>getSampleCount()\<close>
  wraps: on a configured buffer of \<open>2^32\<close> samples \<open>sliceSamplesFromBack(0)\<close> passes
  its check and copies the whole storage into the new, empty buffer.
\<close>

theorem slice_unconfigured_counterexample:
  "addToSampleCount 2 new_AudioData = buffer [Finite 0, Finite 0] 0 0
   \<and> 1 \<le> getSampleCount (buffer [Finite 0, Finite 0] 0 0)
   \<and> sliceSamplesFromBack 1 (buffer [Finite 0, Finite 0] 0 0)
       = Thrown InvalidConfiguration (buffer [Finite 0, Finite 0] 0 0)
   \<and> sliceSamplesFromBack 0 (buffer (replicate (2 ^ 32) (Finite 0)) 1 44100) = Undefined"
proof -
  have "addToSampleCount 2 new_AudioData = buffer [Finite 0, Finite 0] 0 0
   \<and> 1 \<le> getSampleCount (buffer [Finite 0, Finite 0] 0 0)
   \<and> sliceSamplesFromBack 1 (buffer [Finite 0, Finite 0] 0 0)
       = Thrown InvalidConfiguration (buffer [Finite 0, Finite 0] 0 0)"
    by code_simp
  with slice_of_2_32_samples show ?thesis by simp
qed

section \<open>reduceToMono\<close>

lemma fadd_zero: "is_float x \<Longrightarrow> fadd (Finite 0) x = x"
  by (cases x) (simp_all add: is_float_def)

lemma float_of_uint_2: "float_of_uint 2 = Finite 2"
  by code_simp

lemma frame_sum_2:
  "r + 1 < length xs \<Longrightarrow>
     frame_sum 2 xs r acc = Some (fadd (fadd acc (xs ! r)) (xs ! (r + 1)), r + 2)"
  by (simp add: numeral_2_eq_2)

text \<open>
  The loop on two channels, entered at frame \<open>i\<close> of \<open>n\<close>: it returns without undefined
  behaviour, keeps what is before position \<open>i\<close> and stores the mean of frame \<open>j\<close> at
  every position \<open>j\<close> from \<open>i\<close> up to \<open>n\<close>.
\<close>

lemma reduceToMono_loop_stereo:
  assumes "length cur = 2 * n" "i \<le> n"
  shows "\<exists>res. reduceToMono_loop 2 cur (2 * i) i = Some (res, False)
           \<and> length res = 2 * n
           \<and> (\<forall>j<i. res ! j = cur ! j)
           \<and> (\<forall>j. i \<le> j \<and> j < n \<longrightarrow> res ! j = frame_mean cur j)"
  using assms
proof (induction "n - i" arbitrary: cur i)
  case 0
  then have "i = n" by simp
  with 0 show ?case by (subst reduceToMono_loop.simps) auto
next
  case (Suc k)
  then have i: "i < n" by simp
  let ?m = "fdiv (fadd (fadd (Finite 0) (cur ! (2 * i))) (cur ! (2 * i + 1))) (Finite 2)"
  let ?cur = "cur[i := ?m]"
  from Suc i have "\<exists>res. reduceToMono_loop 2 ?cur (2 * (i + 1)) (i + 1) = Some (res, False)
           \<and> length res = 2 * n
           \<and> (\<forall>j<i + 1. res ! j = ?cur ! j)
           \<and> (\<forall>j. i + 1 \<le> j \<and> j < n \<longrightarrow> res ! j = frame_mean ?cur j)"
    by (intro Suc(1)) simp_all
  then obtain res where res:
    "reduceToMono_loop 2 ?cur (2 * (i + 1)) (i + 1) = Some (res, False)"
    "length res = 2 * n" "\<forall>j<i + 1. res ! j = ?cur ! j"
    "\<forall>j. i + 1 \<le> j \<and> j < n \<longrightarrow> res ! j = frame_mean ?cur j" by blast
  have fs: "frame_sum (unat (2 :: 32 word)) cur (2 * i) (Finite 0)
      = Some (fadd (fadd (Finite 0) (cur ! (2 * i))) (cur ! (2 * i + 1)), 2 * i + 2)"
    using i Suc(3) by (simp add: frame_sum_2)
  have step: "reduceToMono_loop 2 cur (2 * i) i = Some (res, False)"
    using i Suc(3) fs res(1) by (subst reduceToMono_loop.simps) (simp add: float_of_uint_2)
  have a: "\<forall>j<i. res ! j = cur ! j" using res(3) by simp
  have b: "res ! i = frame_mean cur i"
    using res(3) i Suc(3) by (simp add: frame_mean_def)
  have c: "\<forall>j. i + 1 \<le> j \<and> j < n \<longrightarrow> res ! j = frame_mean cur j"
    using res(4) by (simp add: frame_mean_def)
  have "\<forall>j. i \<le> j \<and> j < n \<longrightarrow> res ! j = frame_mean cur j"
  proof (intro allI impI)
    fix j assume "i \<le> j \<and> j < n"
    then show "res ! j = frame_mean cur j" using b c by (cases "j = i") auto
  qed
  with step res(2) a show ?case by blast
qed

text \<open>
  Claim C6. \<open>reduceToMono()\<close> on a buffer with at most one channel returns with the
  buffer unchanged. On a buffer with two channels whose storage holds whole frames it
  returns with the storage replaced by one sample \<open>(a + b) / 2\<close> per frame \<open>(a, b)\<close>, in
  the order of the frames and computed in \<open>float\<close>, of length the frame count that
  \<open>getFrameCount()\<close> reports (half the length of the storage, below \<open>2^32\<close> samples),
  and with \<open>channels = 1\<close>.
\<close>

theorem reduceToMono_mono_and_stereo:
  "(channels b \<le> 1 \<longrightarrow> reduceToMono b = Some (Done b))
   \<and> (channels b = 2 \<and> even (length (samples b)) \<and> (\<forall>x\<in>set (samples b). is_float x) \<longrightarrow>
      (\<exists>frameCount. getFrameCount b = Inr frameCount
         \<and> (length (samples b) < 2 ^ 32 \<longrightarrow> unat frameCount = length (samples b) div 2)
         \<and> reduceToMono b = Some (Done (b\<lparr>samples :=
              map (\<lambda>i. fdiv (fadd (samples b ! (2 * i)) (samples b ! (2 * i + 1))) (Finite 2))
                [0..<unat frameCount],
              channels := 1\<rparr>))))"
proof (intro conjI impI)
  assume "channels b \<le> 1"
  then have "channels b < 2" by (simp add: word_le_nat_alt word_less_nat_alt)
  then show "reduceToMono b = Some (Done b)" by (simp add: reduceToMono_def)
next
  let ?mean = "\<lambda>i. fdiv (fadd (samples b ! (2 * i)) (samples b ! (2 * i + 1))) (Finite 2)"
  assume h: "channels b = 2 \<and> even (length (samples b)) \<and> (\<forall>x\<in>set (samples b). is_float x)"
  then obtain n where n: "length (samples b) = 2 * n" by (auto elim: evenE)
  define fc :: "32 word" where "fc = getSampleCount b div 2"
  from h have g: "getFrameCount b = Inr fc"
    by (simp add: getFrameCount_def fc_def word_lt_1_iff)
  have ufc: "unat fc = unat (getSampleCount b) div 2" by (simp add: fc_def unat_div)
  with unat_getSampleCount_le [of b] n have le: "unat fc \<le> n" by simp
  from ufc have small: "length (samples b) < 2 ^ 32 \<longrightarrow> unat fc = length (samples b) div 2"
    by (simp add: unat_getSampleCount)
  from n reduceToMono_loop_stereo [of "samples b" n 0]
  obtain res where res: "reduceToMono_loop 2 (samples b) 0 0 = Some (res, False)"
    "length res = 2 * n" "\<forall>j. j < n \<longrightarrow> res ! j = frame_mean (samples b) j" by auto
  from res(2) n have cnt: "(of_nat (length res) :: 32 word) div 2 = fc"
    by (simp only: fc_def getSampleCount_def)
  have "take (unat fc) res = map ?mean [0..<unat fc]"
  proof (rule nth_equalityI)
    show "length (take (unat fc) res) = length (map ?mean [0..<unat fc])"
      using res(2) le by simp
  next
    fix j assume "j < length (take (unat fc) res)"
    then have j: "j < unat fc" by simp
    with le have jn: "j < n" by simp
    with n h have "is_float (samples b ! (2 * j))" by simp
    with j jn res(3) show "take (unat fc) res ! j = map ?mean [0..<unat fc] ! j"
      by (simp add: frame_mean_def fadd_zero)
  qed
  moreover from le res(2) have "resize (unat fc) res = take (unat fc) res"
    by (simp add: resize_def)
  ultimately have "reduceToMono b
      = Some (Done (b\<lparr>samples := map ?mean [0..<unat fc], channels := 1\<rparr>))"
    using res(1) cnt h by (simp add: reduceToMono_def)
  with g small show "\<exists>frameCount. getFrameCount b = Inr frameCount
         \<and> (length (samples b) < 2 ^ 32 \<longrightarrow> unat frameCount = length (samples b) div 2)
         \<and> reduceToMono b = Some (Done (b\<lparr>samples := map ?mean [0..<unat frameCount],
              channels := 1\<rparr>))"
    by blast
qed

theorem reduceToMono_mono_and_stereo_witness:
  "reduceToMono (buffer [Finite 2, Finite 3] 1 44100) = Some (Done (buffer [Finite 2, Finite 3] 1 44100))
   \<and> getFrameCount (buffer [Finite 1, Finite 3, Finite 2, Finite 4, Finite 5, Finite 7,
                             Finite 6, Finite 8] 2 44100) = Inr 4
   \<and> reduceToMono (buffer [Finite 1, Finite 3, Finite 2, Finite 4, Finite 5, Finite 7,
                           Finite 6, Finite 8] 2 44100)
       = Some (Done (buffer [Finite 2, Finite 3, Finite 6, Finite 7] 1 44100))"
proof -
  let ?mono = "buffer [Finite 2, Finite 3] 1 44100"
  let ?stereo = "buffer [Finite 1, Finite 3, Finite 2, Finite 4, Finite 5, Finite 7,
                         Finite 6, Finite 8] 2 44100"
  let ?mean = "\<lambda>i. fdiv (fadd (samples ?stereo ! (2 * i)) (samples ?stereo ! (2 * i + 1)))
                 (Finite 2)"
  have fl: "list_all is_float (samples ?stereo)"
    by code_simp
  have g: "getFrameCount ?stereo = Inr 4"
    by code_simp
  have m: "map ?mean [0..<4] = [Finite 2, Finite 3, Finite 6, Finite 7]"
    by code_simp
  from reduceToMono_mono_and_stereo [of ?stereo] fl
  obtain frameCount where f: "getFrameCount ?stereo = Inr frameCount"
    "reduceToMono ?stereo
       = Some (Done (?stereo\<lparr>samples := map ?mean [0..<unat frameCount], channels := 1\<rparr>))"
    by (auto simp add: list_all_iff)
  from f(1) g have "frameCount = 4" by simp
  with f(2) m have "reduceToMono ?stereo
      = Some (Done (buffer [Finite 2, Finite 3, Finite 6, Finite 7] 1 44100))"
    by simp
  moreover from reduceToMono_mono_and_stereo [of ?mono]
  have "reduceToMono ?mono = Some (Done ?mono)" by simp
  ultimately show ?thesis using g by simp
qed

section \<open>Finite samples\<close>

lemma finite_update: "list_all isfinite xs \<Longrightarrow> isfinite v \<Longrightarrow> list_all isfinite (xs[i := v])"
  by (auto simp add: list_all_iff dest: subsetD [OF set_update_subset_insert])

lemma finite_resize: "list_all isfinite xs \<Longrightarrow> list_all isfinite (resize n xs)"
  by (auto simp add: resize_def list_all_iff dest: in_set_takeD)

lemma finite_drop: "list_all isfinite xs \<Longrightarrow> list_all isfinite (drop n xs)"
  by (auto simp add: list_all_iff dest: in_set_dropD)

lemma finite_nth: "list_all isfinite xs \<Longrightarrow> i < length xs \<Longrightarrow> isfinite (xs ! i)"
  by (simp add: list_all_length)

lemma finite_copy_loop:
  "list_all isfinite xs \<Longrightarrow> list_all isfinite ys \<Longrightarrow>
     list_all isfinite (fst (copy_loop xs r ys w))"
proof (induction xs r ys w rule: copy_loop.induct)
  case (1 xs r ys w)
  show ?case
  proof (cases "r < length xs \<and> \<not> length ys \<le> w")
    case True
    with 1(2,3) have "list_all isfinite (ys[w := xs ! r])"
      by (simp add: finite_update finite_nth)
    with True 1(1,2) show ?thesis by (subst copy_loop.simps) simp
  next
    case False
    with 1(3) show ?thesis by (subst copy_loop.simps) auto
  qed
qed

lemma finite_copy_loop_result:
  "copy_loop xs r ys w = (ys', ub') \<Longrightarrow> list_all isfinite xs \<Longrightarrow> list_all isfinite ys
     \<Longrightarrow> list_all isfinite ys'"
  using finite_copy_loop [of xs ys r w] by simp

text \<open>With the shortcut the loop of \<open>downsample\<close> stores samples that it has read.\<close>

lemma finite_downsample_loop:
  assumes "downsample_loop factor shortcut xs r w = Some res"
  shows "shortcut \<longrightarrow> list_all isfinite xs \<longrightarrow> list_all isfinite (fst res)"
proof (rule downsample_loop.raw_induct
    [where P = "\<lambda>factor shortcut xs r w res.
       shortcut \<longrightarrow> list_all isfinite xs \<longrightarrow> list_all isfinite (fst res)", OF _ assms])
  fix loop factor shortcut xs r w and res :: "float list \<times> bool"
  assume IH: "\<And>factor shortcut xs r w res. loop factor shortcut xs r w = Some res \<Longrightarrow>
      shortcut \<longrightarrow> list_all isfinite xs \<longrightarrow> list_all isfinite (fst res)"
    and body: "(if r < length xs then
        (if shortcut then
           (if length xs < r + unat factor then Some (xs, True)
            else if length xs \<le> w then Some (xs, True)
            else loop factor shortcut (xs[w := xs ! r]) (r + unat factor) (w + 1))
         else
           (case block_mean (unat factor) (float_of_uint factor) xs r (Finite 0) of
              (mean, readAt') \<Rightarrow>
                if length xs \<le> w then Some (xs, True)
                else loop factor shortcut (xs[w := mean]) readAt' (w + 1)))
      else Some (xs, False)) = Some res"
  show "shortcut \<longrightarrow> list_all isfinite xs \<longrightarrow> list_all isfinite (fst res)"
  proof (intro impI)
    assume sc: shortcut and fin: "list_all isfinite xs"
    show "list_all isfinite (fst res)"
    proof (cases "r < length xs \<and> \<not> length xs < r + unat factor \<and> \<not> length xs \<le> w")
      case False
      with body sc fin show ?thesis by (auto split: if_splits)
    next
      case True
      with body sc
      have "loop factor shortcut (xs[w := xs ! r]) (r + unat factor) (w + 1) = Some res"
        by simp
      from IH [OF this] sc fin True show ?thesis by (simp add: finite_update finite_nth)
    qed
  qed
qed

lemma finite_downsample_shortcut:
  assumes "downsample factor True b = Some r" "state_after r = Some b'"
    "list_all isfinite (samples b)"
  shows "list_all isfinite (samples b')"
proof (cases "factor = 1 \<or> 1 < channels b")
  case True
  with assms show ?thesis by (auto simp add: downsample_def split: if_splits)
next
  case False
  with assms(1) obtain xs ub where
    loop: "downsample_loop factor True (samples b) 0 0 = Some (xs, ub)"
    by (auto simp add: downsample_def split: option.splits)
  from finite_downsample_loop [OF loop] assms(3) have "list_all isfinite xs" by simp
  then have "\<And>n. list_all isfinite (resize n xs)" by (rule finite_resize)
  with False loop assms(1,2) show ?thesis
    by (auto simp add: downsample_def setFrameRate_def Let_def split: option.splits if_splits)
qed

text \<open>
  Claim C3, as the code has it. \<open>setSample\<close> and \<open>setSampleByFrame\<close> reject NaN and the
  infinities, and growth, the merges, trimming, slicing and the stride form of
  \<open>downsample\<close> store zeros or copies of stored samples: in every state built from these
  (and from the setters, the cursor movements and \<open>setSampleAtWriteIterator\<close> with a
  finite argument) every stored sample is finite. \<open>setSampleAtWriteIterator\<close> itself
  checks nothing, and the averaging transforms are not covered.
\<close>

theorem checked_states_hold_finite_samples:
  "checked_state b \<Longrightarrow> list_all isfinite (samples b)"
proof (induction rule: checked_state.induct)
  case construct
  show ?case by (simp add: new_AudioData_def)
next
  case (setChannels b n b')
  then show ?case by (auto simp add: setChannels_def split: if_splits)
next
  case (setFrameRate b n b')
  then show ?case by (auto simp add: setFrameRate_def split: if_splits)
next
  case (append b that b')
  then show ?case by (auto simp add: append_data_def adopt_def Let_def split: if_splits)
next
  case (prepend b that b')
  then show ?case by (auto simp add: prepend_def adopt_def Let_def split: if_splits)
next
  case (setSample b i v b')
  then show ?case by (auto simp add: setSample_def finite_update split: if_splits)
next
  case (setSampleByFrame b f c v b')
  then show ?case
    by (auto simp add: setSampleByFrame_def setSample_def finite_update
        split: if_splits sum.splits)
next
  case (addToSampleCount b n)
  then show ?case by (simp add: addToSampleCount_def finite_resize)
next
  case (addToFrameCount b n b')
  then show ?case
    by (auto simp add: addToFrameCount_def addToSampleCount_def finite_resize split: if_splits)
next
  case (discardFramesFromFront b n b')
  then show ?case
    by (auto simp add: discardFramesFromFront_def Let_def finite_drop split: if_splits sum.splits)
next
  case (slice_receiver b n that b')
  then show ?case
    by (auto simp add: sliceSamplesFromBack_def Let_def finite_resize
        split: if_splits outcome.splits prod.splits)
next
  case (slice_result b n that b')
  have z: "list_all isfinite (samples (addToSampleCount n
      (new_AudioData\<lparr>channels := channels b, frameRate := getFrameRate b\<rparr>)))"
    by (simp add: addToSampleCount_def new_AudioData_def finite_resize)
  from slice_result(2) z slice_result(3) show ?case
    by (auto simp add: sliceSamplesFromBack_def Let_def setFrameRate_def
        split: if_splits prod.splits dest: finite_copy_loop_result)
next
  case (slice_thrown b n e b')
  then show ?case
    by (auto simp add: sliceSamplesFromBack_def Let_def
        split: if_splits outcome.splits prod.splits)
next
  case (downsample_shortcut b factor r b')
  then show ?case by (auto intro: finite_downsample_shortcut)
next
  case (resetIterators b)
  then show ?case by (simp add: resetIterators_def)
next
  case (advanceReadIterator b n)
  then show ?case by (simp add: advanceReadIterator_def)
next
  case (advanceWriteIterator b n)
  then show ?case by (simp add: advanceWriteIterator_def)
next
  case (setSampleAtWriteIterator_finite b v b')
  then show ?case
    by (auto simp add: setSampleAtWriteIterator_def finite_update split: option.splits if_splits)
qed

theorem checked_states_hold_finite_samples_witness:
  "checked_state (buffer [Finite 0, Finite 5] 0 0)
   \<and> list_all isfinite (samples (buffer [Finite 0, Finite 5] 0 0))"
proof -
  have g: "addToSampleCount 2 new_AudioData = buffer [Finite 0, Finite 0] 0 0"
    by code_simp
  have "checked_state (addToSampleCount 2 new_AudioData)"
    by (intro checked_state.addToSampleCount checked_state.construct)
  with g have c: "checked_state (buffer [Finite 0, Finite 0] 0 0)" by simp
  have "state_after (setSample 1 (Finite 5) (buffer [Finite 0, Finite 0] 0 0))
          = Some (buffer [Finite 0, Finite 5] 0 0)"
    by code_simp
  with c have "checked_state (buffer [Finite 0, Finite 5] 0 0)"
    by (rule checked_state.setSample)
  with checked_states_hold_finite_samples [of "buffer [Finite 0, Finite 5] 0 0"]
  show ?thesis by simp
qed

text \<open>
  The claim as it is written fails on both counts. On a new buffer grown to one sample,
  \<open>resetIterators\<close> and \<open>setSampleAtWriteIterator(NaN)\<close> store the NaN. And
  \<open>reduceToMono\<close> on the two-channel frame \<open>(FLT_MAX, FLT_MAX)\<close>, both values finite,
  stores an infinity: the sum overflows.
\<close>

theorem unchecked_write_and_overflow_counterexample:
  "setSampleAtWriteIterator NaN (resetIterators (addToSampleCount 1 new_AudioData))
     = Done \<lparr>samples = [NaN], channels = 0, frameRate = 0,
              readIterator = Some 0, writeIterator = Some 0\<rparr>
   \<and> \<not> list_all isfinite [NaN]
   \<and> list_all isfinite [Finite 340282346638528859811704183484516925440,
                         Finite 340282346638528859811704183484516925440]
   \<and> list_all is_float [Finite 340282346638528859811704183484516925440,
                         Finite 340282346638528859811704183484516925440]
   \<and> reduceToMono (buffer [Finite 340282346638528859811704183484516925440,
                            Finite 340282346638528859811704183484516925440] 2 44100)
       = Some (Done (buffer [PlusInfinity] 1 44100))
   \<and> \<not> list_all isfinite [PlusInfinity]"
  by code_simp

end
